theory Spec2Isabelle
  imports Main "HOL-Library.Sublist" "HOL-Library.Multiset"
begin

section \<open>Python strings\<close>

text \<open>
  A Python \<open>str\<close> is a sequence of Unicode code points. The methods \<open>strip\<close>,
  \<open>lower\<close> and \<open>title\<close> that \<open>normalize_status\<close> calls are modelled on
  code points; keywords and labels of the source are ASCII literals, written as HOL
  strings and converted with \<open>ascii\<close>.
\<close>

type_synonym codepoint = nat
type_synonym str = "codepoint list"

definition ascii :: "string \<Rightarrow> str" where
  "ascii s = map of_char s"

text \<open>
  The case mappings of code points from 128 on come from the Unicode character database
  of the interpreter, which is no part of the repository: it is a parameter of the model.
  In the ASCII range the mappings are fixed.
\<close>

record ucd =
  ucd_lower :: "codepoint \<Rightarrow> str"
  ucd_title :: "codepoint \<Rightarrow> str"
  ucd_cased :: "codepoint \<Rightarrow> bool"
  ucd_case_ignorable :: "codepoint \<Rightarrow> bool"

definition is_ascii :: "codepoint \<Rightarrow> bool" where
  "is_ascii c = (c < 128)"

definition ascii_upper :: "codepoint \<Rightarrow> bool" where
  "ascii_upper c = (65 \<le> c \<and> c \<le> 90)"

definition ascii_lower :: "codepoint \<Rightarrow> bool" where
  "ascii_lower c = (97 \<le> c \<and> c \<le> 122)"

definition ascii_tolower :: "codepoint \<Rightarrow> codepoint" where
  "ascii_tolower c = (if ascii_upper c then c + 32 else c)"

definition ascii_toupper :: "codepoint \<Rightarrow> codepoint" where
  "ascii_toupper c = (if ascii_lower c then c - 32 else c)"

definition is_cased :: "ucd \<Rightarrow> codepoint \<Rightarrow> bool" where
  "is_cased U c = (if is_ascii c then ascii_upper c \<or> ascii_lower c else ucd_cased U c)"

definition to_lower_full :: "ucd \<Rightarrow> codepoint \<Rightarrow> str" where
  "to_lower_full U c = (if is_ascii c then [ascii_tolower c] else ucd_lower U c)"

definition to_title_full :: "ucd \<Rightarrow> codepoint \<Rightarrow> str" where
  "to_title_full U c = (if is_ascii c then [ascii_toupper c] else ucd_title U c)"

text \<open>The code points for which \<open>str.isspace\<close> holds; \<open>strip\<close> removes them.\<close>

definition is_whitespace :: "codepoint \<Rightarrow> bool" where
  "is_whitespace c =
     ((9 \<le> c \<and> c \<le> 13) \<or> (28 \<le> c \<and> c \<le> 32) \<or> c = 133 \<or> c = 160 \<or> c = 5760
      \<or> (8192 \<le> c \<and> c \<le> 8202) \<or> c = 8232 \<or> c = 8233 \<or> c = 8239 \<or> c = 8287
      \<or> c = 12288)"

definition py_strip :: "str \<Rightarrow> str" where
  "py_strip s = rev (dropWhile is_whitespace (rev (dropWhile is_whitespace s)))"

text \<open>
  \<open>lower\<close> maps every code point by its full lower-case mapping, but for capital sigma
  (U+03A3), which becomes the final sigma (U+03C2) when a cased code point precedes it
  and none follows, case-ignorable code points skipped. \<open>seen\<close> is the text to the
  left, nearest code point first.
\<close>

fun first_not_ignorable :: "ucd \<Rightarrow> str \<Rightarrow> codepoint option" where
  "first_not_ignorable U [] = None"
| "first_not_ignorable U (c # cs) =
     (if ucd_case_ignorable U c then first_not_ignorable U cs else Some c)"

definition handle_capital_sigma :: "ucd \<Rightarrow> str \<Rightarrow> str \<Rightarrow> codepoint" where
  "handle_capital_sigma U seen rest =
     (if (case first_not_ignorable U seen of None \<Rightarrow> False | Some c \<Rightarrow> is_cased U c)
         \<and> (case first_not_ignorable U rest of None \<Rightarrow> True | Some c \<Rightarrow> \<not> is_cased U c)
      then 962 else 963)"

definition lower_ucs4 :: "ucd \<Rightarrow> str \<Rightarrow> codepoint \<Rightarrow> str \<Rightarrow> str" where
  "lower_ucs4 U seen c rest =
     (if c = 931 then [handle_capital_sigma U seen rest] else to_lower_full U c)"

fun do_lower :: "ucd \<Rightarrow> str \<Rightarrow> str \<Rightarrow> str" where
  "do_lower U seen [] = []"
| "do_lower U seen (c # rest) =
     lower_ucs4 U seen c rest @ do_lower U (c # seen) rest"

definition py_lower :: "ucd \<Rightarrow> str \<Rightarrow> str" where
  "py_lower U s = do_lower U [] s"

text \<open>
  \<open>title\<close> gives a code point its title-case mapping when the code point to its left
  is not cased, and its lower-case mapping otherwise.
\<close>

fun do_title :: "ucd \<Rightarrow> bool \<Rightarrow> str \<Rightarrow> str \<Rightarrow> str" where
  "do_title U previous_is_cased seen [] = []"
| "do_title U previous_is_cased seen (c # rest) =
     (if previous_is_cased then lower_ucs4 U seen c rest else to_title_full U c)
     @ do_title U (is_cased U c) (c # seen) rest"

definition py_title :: "ucd \<Rightarrow> str \<Rightarrow> str" where
  "py_title U s = do_title U False [] s"

text \<open>\<open>keyword in lowered\<close>: the keyword occurs as a contiguous run.\<close>

fun str_in :: "str \<Rightarrow> str \<Rightarrow> bool" where
  "str_in k [] = (k = [])"
| "str_in k (c # s) = (prefix k (c # s) \<or> str_in k s)"

section \<open>Status normalisation\<close>

datatype target = T_rejected | T_offer | T_onsite | T_interview | T_ranked | T_applied

definition STATUS_KEYWORDS :: "(target \<times> string list) list" where
  "STATUS_KEYWORDS =
     [(T_rejected, [''unfilled'', ''filled'', ''cancelled'', ''canceled'', ''closed'',
                    ''not selected'', ''rejected'', ''unsuccessful'', ''declined'',
                    ''did not proceed'']),
      (T_offer, [''offer'', ''accepted'', ''accept'']),
      (T_onsite, [''onsite'', ''final round'']),
      (T_interview, [''interview'', ''phone screen'', ''screen'', ''assessment'']),
      (T_ranked, [''ranked'', ''alternate'', ''shortlist'', ''pool'']),
      (T_applied, [''applied'', ''submitted'', ''received'', ''under review'',
                   ''in progress''])]"

fun canonical :: "target \<Rightarrow> string" where
  "canonical T_rejected = ''Rejected''"
| "canonical T_offer = ''Offer''"
| "canonical T_onsite = ''Onsite''"
| "canonical T_interview = ''Interview''"
| "canonical T_ranked = ''Ranked''"
| "canonical T_applied = ''Applied''"

definition any_keyword :: "string list \<Rightarrow> str \<Rightarrow> bool" where
  "any_keyword keywords lowered = list_ex (\<lambda>keyword. str_in (ascii keyword) lowered) keywords"

fun first_match :: "(target \<times> string list) list \<Rightarrow> str \<Rightarrow> target option" where
  "first_match [] lowered = None"
| "first_match ((target, keywords) # items) lowered =
     (if any_keyword keywords lowered then Some target else first_match items lowered)"

definition normalize_status :: "ucd \<Rightarrow> str option \<Rightarrow> str" where
  "normalize_status U raw_status =
     (let text = py_strip (case raw_status of None \<Rightarrow> [] | Some s \<Rightarrow> s);
          lowered = py_lower U text
      in case first_match STATUS_KEYWORDS lowered of
           Some target \<Rightarrow> ascii (canonical target)
         | None \<Rightarrow> if text \<noteq> [] then py_title U text else ascii ''Applied'')"

section \<open>The store\<close>

text \<open>
  The nine columns that the code writes, in the order of the schema. A dict of the code
  (\<open>data\<close>, \<open>normalized\<close>) holds the same nine keys; its \<open>status\<close> is the raw
  value, which may be \<open>None\<close>, before normalisation and a text after it. The columns
  \<open>company\<close>, \<open>role\<close> and \<open>applied_date\<close> are \<open>NOT NULL\<close> and hold a text in
  every dict that the form handler and the crawler build; a dict that lacks a key or
  holds \<open>None\<close> there makes the code raise and is no value of this type. The field
  \<open>notes\<close> is written \<open>notes'\<close>.
\<close>

record 'st application_fields =
  company :: str
  role :: str
  location :: "str option"
  status :: 'st
  applied_date :: str
  follow_up_date :: "str option"
  source :: "str option"
  notes' :: "str option"
  url :: "str option"

type_synonym data = "str option application_fields"

text \<open>A row of table \<open>applications\<close>: the columns and the integer primary key.\<close>

record application = "str application_fields" +
  app_id :: int

type_synonym params =
  "str \<times> str \<times> str option \<times> str \<times> str \<times> str option \<times> str option \<times> str option \<times> str option"

definition data_to_tuple :: "str application_fields \<Rightarrow> params" where
  "data_to_tuple data =
     (company data, role data, location data, status data, applied_date data,
      follow_up_date data, source data, notes' data, url data)"

text \<open>
  The table is the list of its rows in the order a scan visits them; \<open>seq\<close> is the
  largest key that \<open>AUTOINCREMENT\<close> has handed out. Every statement of the code is
  followed by its commit, so a store is a committed state. Keys are unbounded integers:
  the end of the 64-bit range is not modelled.
\<close>

record store =
  rows :: "application list"
  seq :: int

text \<open>
  \<open>INSERT INTO applications (company, role, location, status, applied_date,
  follow_up_date, source, notes, url) VALUES (?, ?, ?, ?, ?, ?, ?, ?, ?)\<close>: the
  parameters are bound by position, the key is one more than every key in use or
  handed out before.
\<close>

definition next_id :: "store \<Rightarrow> int" where
  "next_id s = fold max (map app_id (rows s)) (seq s) + 1"

fun bind_row :: "int \<Rightarrow> params \<Rightarrow> application" where
  "bind_row i (p1, p2, p3, p4, p5, p6, p7, p8, p9) =
     \<lparr>company = p1, role = p2, location = p3, status = p4, applied_date = p5,
      follow_up_date = p6, source = p7, notes' = p8, url = p9, app_id = i\<rparr>"

definition sql_insert :: "params \<Rightarrow> store \<Rightarrow> store" where
  "sql_insert ps s = \<lparr>rows = rows s @ [bind_row (next_id s) ps], seq = next_id s\<rparr>"

text \<open>
  \<open>UPDATE applications SET company = ?, role = ?, location = ?, status = ?,
  applied_date = ?, follow_up_date = ?, source = ?, notes = ?, url = ? WHERE id = ?\<close>.
\<close>

definition sql_update :: "params \<Rightarrow> int \<Rightarrow> store \<Rightarrow> store" where
  "sql_update ps i s =
     s\<lparr>rows := map (\<lambda>r. if app_id r = i then bind_row i ps else r) (rows s)\<rparr>"

text \<open>
  \<open>SELECT id FROM applications WHERE company = ? AND role = ?\<close> with \<open>fetchone\<close>:
  the key of the first row that the scan finds, or \<open>None\<close>.
\<close>

definition select_id :: "str \<Rightarrow> str \<Rightarrow> store \<Rightarrow> int option" where
  "select_id c ro s =
     map_option app_id (find (\<lambda>r. company r = c \<and> role r = ro) (rows s))"

section \<open>Reconciliation\<close>

text \<open>
  \<open>normalized\<close> is the dict with the status replaced by its normal form.
  \<open>data.get("status", "Applied")\<close> is the value under the key, and
  \<open>normalize_status\<close> reads \<open>None\<close> as the empty text; the default of a missing key
  has the same normal form (lemma \<open>normalize_status_default\<close>).
\<close>

definition upsert_application :: "ucd \<Rightarrow> data \<Rightarrow> store \<Rightarrow> store" where
  "upsert_application U data conn =
     (let normalized =
            \<lparr>company = company data, role = role data, location = location data,
             status = normalize_status U (status data), applied_date = applied_date data,
             follow_up_date = follow_up_date data, source = source data,
             notes' = notes' data, url = url data\<rparr>;
          existing = select_id (company normalized) (role normalized) conn
      in case existing of
           Some i \<Rightarrow> sql_update (data_to_tuple normalized) i conn
         | None \<Rightarrow> sql_insert (data_to_tuple normalized) conn)"

section \<open>Manual entry\<close>

text \<open>The submitted form maps field names to texts; \<open>today\<close> is the ISO date of the day.\<close>

type_synonym form = "string \<rightharpoonup> str"

definition form_get :: "form \<Rightarrow> string \<Rightarrow> str \<Rightarrow> str" where
  "form_get f k d = (case f k of None \<Rightarrow> d | Some v \<Rightarrow> v)"

definition form_to_application :: "ucd \<Rightarrow> str \<Rightarrow> form \<Rightarrow> str application_fields" where
  "form_to_application U today f =
     (let applied = form_get f ''applied_date'' [];
          follow_up = (if form_get f ''follow_up_date'' [] = [] then None
                       else Some (form_get f ''follow_up_date'' []));
          applied = (if applied = [] then today else applied);
          status = normalize_status U (Some (form_get f ''status'' (ascii ''Applied'')))
      in \<lparr>company = py_strip (form_get f ''company'' []),
          role = py_strip (form_get f ''role'' []),
          location = Some (py_strip (form_get f ''location'' [])),
          status = status,
          applied_date = applied,
          follow_up_date = follow_up,
          source = Some (py_strip (form_get f ''source'' [])),
          notes' = Some (py_strip (form_get f ''notes'' [])),
          url = Some (py_strip (form_get f ''url'' []))\<rparr>)"

datatype http_method = GET | POST

definition add_application :: "ucd \<Rightarrow> str \<Rightarrow> http_method \<Rightarrow> form \<Rightarrow> store \<Rightarrow> store" where
  "add_application U today method f conn =
     (if method = POST
      then sql_insert (data_to_tuple (form_to_application U today f)) conn
      else conn)"

section \<open>Status breakdown\<close>

text \<open>
  \<open>SELECT status, COUNT(*) as count FROM applications GROUP BY status ORDER BY count
  DESC\<close>. SQL leaves the order of groups with equal counts open; here they keep the
  order in which their status first occurs.
\<close>

definition fetch_stage_breakdown :: "store \<Rightarrow> (str \<times> nat) list" where
  "fetch_stage_breakdown conn =
     sort_key (\<lambda>(st, n). - int n)
       (map (\<lambda>st. (st, length (filter (\<lambda>r. status r = st) (rows conn))))
            (remdups (map status (rows conn))))"

section \<open>The crawler's loop\<close>

text \<open>
  A row element of the page answers a selector with the inner text of the first
  descendant that matches, if there is one.
\<close>

type_synonym element = "string \<rightharpoonup> str"

definition extract_text :: "element \<Rightarrow> string option \<Rightarrow> str" where
  "extract_text element selector =
     (case selector of
        None \<Rightarrow> []
      | Some sel \<Rightarrow>
          if sel = [] then []
          else (case element sel of None \<Rightarrow> [] | Some text \<Rightarrow> py_strip text))"

record crawl_args =
  target_url :: "str option"
  company_selector :: string
  role_selector :: string
  status_selector :: string
  location_selector :: "string option"
  source_label :: str
  today_iso :: str

definition row_data :: "ucd \<Rightarrow> crawl_args \<Rightarrow> element \<Rightarrow> data" where
  "row_data U a row =
     (let status_raw = extract_text row (Some (status_selector a));
          company = extract_text row (Some (company_selector a));
          role = extract_text row (Some (role_selector a));
          status = normalize_status U (Some status_raw);
          location = (if location_selector a \<noteq> None \<and> location_selector a \<noteq> Some []
                      then extract_text row (location_selector a) else [])
      in \<lparr>company = company, role = role, location = Some location,
          status = Some status, applied_date = today_iso a, follow_up_date = None,
          source = Some (source_label a),
          notes' = Some (ascii ''Imported via crawler from ''
                        @ (case target_url a of None \<Rightarrow> ascii ''None'' | Some u \<Rightarrow> u)),
          url = target_url a\<rparr>)"

definition present :: "crawl_args \<Rightarrow> element \<Rightarrow> bool" where
  "present a row =
     (extract_text row (Some (company_selector a)) \<noteq> []
      \<and> extract_text row (Some (role_selector a)) \<noteq> []
      \<and> extract_text row (Some (status_selector a)) \<noteq> [])"

fun crawl_rows :: "ucd \<Rightarrow> crawl_args \<Rightarrow> element list \<Rightarrow> store \<times> nat \<Rightarrow> store \<times> nat" where
  "crawl_rows U a [] (conn, imported) = (conn, imported)"
| "crawl_rows U a (row # others) (conn, imported) =
     (if \<not> present a row then crawl_rows U a others (conn, imported)
      else crawl_rows U a others (upsert_application U (row_data U a row) conn, imported + 1))"

text \<open>
  \<open>crawl_and_sync\<close> from the rows that the page gave and the store that
  \<open>ensure_database\<close> left: the store after the loop and the count it returns, which
  \<open>main\<close> prints.
\<close>

definition crawl_and_sync :: "ucd \<Rightarrow> crawl_args \<Rightarrow> element list \<Rightarrow> store \<Rightarrow> store \<times> nat" where
  "crawl_and_sync U a page_rows conn = crawl_rows U a page_rows (conn, 0)"

section \<open>Notions of the specification\<close>

text \<open>
  A row has the key of a candidate when company and role are equal as texts; the row
  that a candidate becomes under key \<open>i\<close> holds the candidate's values, the status
  normalised.
\<close>

definition candidate_row :: "ucd \<Rightarrow> data \<Rightarrow> int \<Rightarrow> application" where
  "candidate_row U data i =
     \<lparr>company = company data, role = role data, location = location data,
      status = normalize_status U (status data), applied_date = applied_date data,
      follow_up_date = follow_up_date data, source = source data, notes' = notes' data,
      url = url data, app_id = i\<rparr>"

definition same_key :: "data \<Rightarrow> application \<Rightarrow> bool" where
  "same_key data r = (company r = company data \<and> role r = role data)"

section \<open>Data of the worked examples\<close>

text \<open>
  An excerpt of the Unicode character database: U+FB01 (the ligature fi) is a cased
  letter, its own lower case, with the title case \<open>Fi\<close>. Every other code point
  from 128 on is left uncased here; the examples use none.
\<close>

definition ucd_fi :: ucd where
  "ucd_fi = \<lparr>ucd_lower = (\<lambda>c. [c]),
             ucd_title = (\<lambda>c. if c = 64257 then [70, 105] else [c]),
             ucd_cased = (\<lambda>c. c = 64257),
             ucd_case_ignorable = (\<lambda>c. False)\<rparr>"

definition example_row :: "int \<Rightarrow> string \<Rightarrow> string \<Rightarrow> string \<Rightarrow> string \<Rightarrow> application" where
  "example_row i c ro st n =
     \<lparr>company = ascii c, role = ascii ro, location = Some (ascii ''Waterloo, ON''),
      status = ascii st, applied_date = ascii ''2024-05-01'', follow_up_date = None,
      source = Some (ascii ''WaterlooWorks''), notes' = Some (ascii n), url = Some [],
      app_id = i\<rparr>"

definition example_store :: store where
  "example_store =
     \<lparr>rows = [example_row 1 ''Acme'' ''Intern'' ''Applied'' ''Prep system design'',
              example_row 2 ''Acme'' ''Intern'' ''Interview'' '''',
              example_row 3 ''Volt Robotics'' ''Firmware Co-op'' ''Applied'' ''''],
      seq = 3\<rparr>"

definition example_data :: "string \<Rightarrow> string \<Rightarrow> string \<Rightarrow> data" where
  "example_data c ro st =
     \<lparr>company = ascii c, role = ascii ro, location = Some [], status = Some (ascii st),
      applied_date = ascii ''2024-06-01'', follow_up_date = None,
      source = Some (ascii ''Crawler''), notes' = Some [], url = None\<rparr>"

definition example_form :: form where
  "example_form = [''company'' \<mapsto> ascii '' Acme '', ''role'' \<mapsto> ascii ''Intern'']"

definition example_args :: crawl_args where
  "example_args =
     \<lparr>target_url = Some (ascii ''https://example.com/applications''),
      company_selector = ''td:nth-child(1)'', role_selector = ''td:nth-child(2)'',
      status_selector = ''td:nth-child(3)'', location_selector = None,
      source_label = ascii ''Crawler'', today_iso = ascii ''2024-06-01''\<rparr>"

definition example_page :: "element list" where
  "example_page =
     [[''td:nth-child(1)'' \<mapsto> ascii ''Acme'', ''td:nth-child(2)'' \<mapsto> ascii ''Intern'',
       ''td:nth-child(3)'' \<mapsto> ascii ''Position Filled''],
      [''td:nth-child(1)'' \<mapsto> ascii ''Quark Labs'', ''td:nth-child(3)'' \<mapsto> ascii ''Offer''],
      [''td:nth-child(1)'' \<mapsto> ascii ''Aurora Cloud'', ''td:nth-child(2)'' \<mapsto> ascii ''Backend Intern'',
       ''td:nth-child(3)'' \<mapsto> ascii ''   ''],
      [''td:nth-child(1)'' \<mapsto> ascii ''Volt Robotics'', ''td:nth-child(2)'' \<mapsto> ascii ''Firmware Co-op'',
       ''td:nth-child(3)'' \<mapsto> ascii ''Interview Scheduled - Phone Screen'']]"

section \<open>Properties of the string model\<close>

lemma str_in_iff: "str_in k s \<longleftrightarrow> (\<exists>p t. s = p @ k @ t)"
proof (induction s)
  case Nil
  then show ?case by auto
next
  case (Cons c s)
  show ?case
  proof
    assume "str_in k (c # s)"
    then consider "prefix k (c # s)" | "str_in k s" by auto
    then show "\<exists>p t. c # s = p @ k @ t"
    proof cases
      case 1
      then obtain t where "c # s = k @ t" by (auto simp: prefix_def)
      then have "c # s = [] @ k @ t" by simp
      then show ?thesis by blast
    next
      case 2
      with Cons.IH obtain p t where "s = p @ k @ t" by blast
      then have "c # s = (c # p) @ k @ t" by simp
      then show ?thesis by blast
    qed
  next
    assume "\<exists>p t. c # s = p @ k @ t"
    then obtain p t where pt: "c # s = p @ k @ t" by blast
    show "str_in k (c # s)"
    proof (cases p)
      case Nil
      with pt have "prefix k (c # s)" by (simp add: prefix_def)
      then show ?thesis by simp
    next
      case (Cons a p')
      with pt have "s = p' @ k @ t" by simp
      with Cons.IH have "str_in k s" by blast
      then show ?thesis by simp
    qed
  qed
qed

lemmas ascii_simps = is_ascii_def ascii_upper_def ascii_lower_def ascii_tolower_def ascii_toupper_def

lemma ascii_toupper_is_ascii: "is_ascii c \<Longrightarrow> is_ascii (ascii_toupper c)"
  unfolding ascii_simps by arith

lemma ascii_tolower_is_ascii: "is_ascii c \<Longrightarrow> is_ascii (ascii_tolower c)"
  unfolding ascii_simps by arith

lemma ascii_tolower_tolower: "ascii_tolower (ascii_tolower c) = ascii_tolower c"
  unfolding ascii_simps by simp

lemma ascii_tolower_toupper: "ascii_tolower (ascii_toupper c) = ascii_tolower c"
  unfolding ascii_simps by (simp; arith)

lemma ascii_toupper_toupper: "ascii_toupper (ascii_toupper c) = ascii_toupper c"
  unfolding ascii_simps by (simp; arith)

lemma letter_tolower:
  "(ascii_upper (ascii_tolower c) \<or> ascii_lower (ascii_tolower c)) = (ascii_upper c \<or> ascii_lower c)"
  unfolding ascii_simps by (simp; arith)

lemma letter_toupper:
  "(ascii_upper (ascii_toupper c) \<or> ascii_lower (ascii_toupper c)) = (ascii_upper c \<or> ascii_lower c)"
  unfolding ascii_simps by (simp; arith)

lemma is_cased_tolower: "is_ascii c \<Longrightarrow> is_cased U (ascii_tolower c) = is_cased U c"
  by (simp add: is_cased_def ascii_tolower_is_ascii letter_tolower)

lemma is_cased_toupper: "is_ascii c \<Longrightarrow> is_cased U (ascii_toupper c) = is_cased U c"
  by (simp add: is_cased_def ascii_toupper_is_ascii letter_toupper)

lemma is_whitespace_tolower: "is_whitespace (ascii_tolower c) = is_whitespace c"
  unfolding ascii_simps is_whitespace_def by (simp; arith)

lemma is_whitespace_toupper: "is_whitespace (ascii_toupper c) = is_whitespace c"
  unfolding ascii_simps is_whitespace_def by (simp; arith)

lemma lower_ucs4_ascii: "is_ascii c \<Longrightarrow> lower_ucs4 U seen c rest = [ascii_tolower c]"
  by (simp add: lower_ucs4_def to_lower_full_def is_ascii_def)

lemma to_title_full_ascii: "is_ascii c \<Longrightarrow> to_title_full U c = [ascii_toupper c]"
  by (simp add: to_title_full_def)

lemma do_lower_ascii:
  "list_all is_ascii s \<Longrightarrow> do_lower U seen s = map ascii_tolower s"
  by (induction s arbitrary: seen) (simp_all add: lower_ucs4_ascii)

lemma py_lower_ascii: "list_all is_ascii s \<Longrightarrow> py_lower U s = map ascii_tolower s"
  by (simp add: py_lower_def do_lower_ascii)

lemma do_title_ascii_length:
  "list_all is_ascii s \<Longrightarrow> length (do_title U p seen s) = length s"
  by (induction s arbitrary: p seen) (simp_all add: lower_ucs4_ascii to_title_full_ascii)

lemma do_title_ascii_is_ascii:
  "list_all is_ascii s \<Longrightarrow> list_all is_ascii (do_title U p seen s)"
  by (induction s arbitrary: p seen)
    (simp_all add: lower_ucs4_ascii to_title_full_ascii ascii_tolower_is_ascii
      ascii_toupper_is_ascii)

lemma do_title_ascii_lower:
  "list_all is_ascii s \<Longrightarrow> map ascii_tolower (do_title U p seen s) = map ascii_tolower s"
  by (induction s arbitrary: p seen)
    (simp_all add: lower_ucs4_ascii to_title_full_ascii ascii_tolower_tolower
      ascii_tolower_toupper)

lemma do_title_ascii_space:
  "list_all is_ascii s \<Longrightarrow> map is_whitespace (do_title U p seen s) = map is_whitespace s"
  by (induction s arbitrary: p seen)
    (simp_all add: lower_ucs4_ascii to_title_full_ascii is_whitespace_tolower
      is_whitespace_toupper)

lemma do_title_ascii_idem:
  "list_all is_ascii s \<Longrightarrow> do_title U p seen' (do_title U p seen s) = do_title U p seen s"
  by (induction s arbitrary: p seen seen')
    (simp_all add: lower_ucs4_ascii to_title_full_ascii ascii_tolower_is_ascii
      ascii_toupper_is_ascii ascii_tolower_tolower ascii_toupper_toupper is_cased_tolower
      is_cased_toupper)

lemma dropWhile_keep: "xs = [] \<or> \<not> P (hd xs) \<Longrightarrow> dropWhile P xs = xs"
  by (cases xs) auto

lemma dropWhile_shorter: "xs \<noteq> [] \<Longrightarrow> P (hd xs) \<Longrightarrow> length (dropWhile P xs) < length xs"
  by (cases xs) (auto simp: le_imp_less_Suc length_dropWhile_le)

lemma py_strip_eq_iff:
  "py_strip s = s \<longleftrightarrow> (s = [] \<or> (\<not> is_whitespace (hd s) \<and> \<not> is_whitespace (last s)))"
proof (cases "s = []")
  case True
  then show ?thesis by (simp add: py_strip_def)
next
  case ne: False
  define d where "d = dropWhile is_whitespace s"
  define e where "e = dropWhile is_whitespace (rev d)"
  have strip: "py_strip s = rev e" by (simp add: py_strip_def d_def e_def)
  have "length e \<le> length (rev d)" unfolding e_def by (rule length_dropWhile_le)
  then have len1: "length (py_strip s) \<le> length d" by (simp add: strip)
  have len2: "length d \<le> length s" unfolding d_def by (rule length_dropWhile_le)
  show ?thesis
  proof (cases "is_whitespace (hd s)")
    case True
    with ne have "length d < length s" unfolding d_def by (rule dropWhile_shorter)
    with len1 have "length (py_strip s) < length s" by simp
    then have "py_strip s \<noteq> s" by auto
    with True ne show ?thesis by simp
  next
    case False
    then have d: "d = s" unfolding d_def by (simp add: dropWhile_keep)
    have r: "rev s \<noteq> []" "hd (rev s) = last s" using ne by (simp_all add: hd_rev)
    show ?thesis
    proof (cases "is_whitespace (last s)")
      case True
      with r have "is_whitespace (hd (rev s))" by simp
      with r(1) have "length (dropWhile is_whitespace (rev s)) < length (rev s)"
        by (rule dropWhile_shorter)
      then have "length (py_strip s) < length s" by (simp add: strip e_def d)
      then have "py_strip s \<noteq> s" by auto
      with True ne show ?thesis by simp
    next
      case l: False
      with r have "dropWhile is_whitespace (rev s) = rev s"
        by (simp add: dropWhile_keep)
      then have "py_strip s = s" by (simp add: strip e_def d)
      with l False ne show ?thesis by simp
    qed
  qed
qed

lemma py_strip_idem: "py_strip (py_strip s) = py_strip s"
proof -
  define d where "d = dropWhile is_whitespace s"
  define e where "e = dropWhile is_whitespace (rev d)"
  have strip: "py_strip s = rev e" by (simp add: py_strip_def d_def e_def)
  show ?thesis
  proof (cases "e = []")
    case True
    have "py_strip [] = []" by (simp add: py_strip_def)
    with True strip show ?thesis by simp
  next
    case False
    have "\<not> is_whitespace (hd e)" using False unfolding e_def by (rule hd_dropWhile)
    then have l: "\<not> is_whitespace (last (rev e))" by (simp add: last_rev)
    have dn: "d \<noteq> []"
    proof
      assume "d = []"
      then have "e = []" by (simp add: e_def)
      with False show False ..
    qed
    then have hd_d: "\<not> is_whitespace (hd d)" unfolding d_def by (rule hd_dropWhile)
    have "rev d = takeWhile is_whitespace (rev d) @ e"
      unfolding e_def by (rule takeWhile_dropWhile_id [symmetric])
    then have "rev (rev d) = rev (takeWhile is_whitespace (rev d) @ e)" by (rule arg_cong)
    then have "d = rev e @ rev (takeWhile is_whitespace (rev d))" by simp
    then have "hd d = hd (rev e @ rev (takeWhile is_whitespace (rev d)))" by (rule arg_cong)
    also have "\<dots> = hd (rev e)" using False by simp
    finally have "\<not> is_whitespace (hd (rev e))" using hd_d by simp
    with l have "py_strip (rev e) = rev e" by (simp add: py_strip_eq_iff)
    then show ?thesis by (simp add: strip)
  qed
qed

lemma set_py_strip: "set (py_strip s) \<subseteq> set s"
proof -
  have "set (py_strip s) \<subseteq> set (dropWhile is_whitespace s)"
    unfolding py_strip_def using set_dropWhileD by fastforce
  also have "\<dots> \<subseteq> set s" using set_dropWhileD by fastforce
  finally show ?thesis .
qed

lemma py_strip_ascii: "list_all is_ascii s \<Longrightarrow> list_all is_ascii (py_strip s)"
  using set_py_strip [of s] by (auto simp: list_all_iff)

lemma py_title_ascii_stripped:
  assumes a: "list_all is_ascii s" and st: "py_strip s = s"
  shows "py_strip (py_title U s) = py_title U s"
proof (cases "s = []")
  case True
  then show ?thesis by (simp add: py_title_def py_strip_def)
next
  case False
  let ?t = "py_title U s"
  have m: "map is_whitespace ?t = map is_whitespace s"
    using a by (simp add: py_title_def do_title_ascii_space)
  have len: "length ?t = length s" using a by (simp add: py_title_def do_title_ascii_length)
  with False have ne: "?t \<noteq> []" by auto
  have "is_whitespace (hd ?t) = hd (map is_whitespace ?t)" using ne by (simp add: hd_map)
  also have "\<dots> = is_whitespace (hd s)" using m False by (simp add: hd_map)
  finally have h: "is_whitespace (hd ?t) = is_whitespace (hd s)" .
  have "is_whitespace (last ?t) = last (map is_whitespace ?t)" using ne by (simp add: last_map)
  also have "\<dots> = is_whitespace (last s)" using m False by (simp add: last_map)
  finally have l: "is_whitespace (last ?t) = is_whitespace (last s)" .
  from st False have "\<not> is_whitespace (hd s) \<and> \<not> is_whitespace (last s)"
    by (simp add: py_strip_eq_iff)
  with h l show ?thesis by (simp add: py_strip_eq_iff)
qed

section \<open>Properties of status normalisation\<close>

lemma first_match_rejected:
  "any_keyword [''unfilled'', ''filled'', ''cancelled'', ''canceled'', ''closed'',
                    ''not selected'', ''rejected'', ''unsuccessful'', ''declined'',
                    ''did not proceed''] lowered \<Longrightarrow> first_match STATUS_KEYWORDS lowered = Some T_rejected"
  by (simp add: STATUS_KEYWORDS_def)

lemma first_match_None:
  "first_match items lowered = None \<longleftrightarrow> (\<forall>(target, keywords) \<in> set items. \<not> any_keyword keywords lowered)"
  by (induction items lowered rule: first_match.induct) auto

lemmas normalize_eval =
  normalize_status_def py_strip_def is_whitespace_def ascii_def py_lower_def py_title_def
  lower_ucs4_def to_lower_full_def to_title_full_def is_cased_def is_ascii_def
  ascii_tolower_def ascii_toupper_def ascii_upper_def ascii_lower_def STATUS_KEYWORDS_def
  any_keyword_def

lemma normalize_status_canonical:
  "normalize_status U (Some (ascii (canonical t))) = ascii (canonical t)"
  by (cases t) (simp_all add: normalize_eval)

lemma normalize_status_None: "normalize_status U None = ascii ''Applied''"
  by (simp add: normalize_eval)

text \<open>
  A dict without the key \<open>status\<close> takes the default \<open>"Applied"\<close>, which normalises as
  \<open>None\<close> does.
\<close>

lemma normalize_status_default:
  "normalize_status U (Some (ascii ''Applied'')) = normalize_status U None"
  by (simp add: normalize_eval)

lemma normalize_status_matched:
  "first_match STATUS_KEYWORDS (py_lower U (py_strip x)) = Some t \<Longrightarrow>
   normalize_status U (Some x) = ascii (canonical t)"
  by (simp add: normalize_status_def)

lemma normalize_status_unmatched:
  "first_match STATUS_KEYWORDS (py_lower U (py_strip x)) = None \<Longrightarrow>
   normalize_status U (Some x) =
     (if py_strip x \<noteq> [] then py_title U (py_strip x) else ascii ''Applied'')"
  by (simp add: normalize_status_def)

lemmas example_defs = example_row_def example_store_def example_data_def ascii_def same_key_def

subsection \<open>The rejected family comes first\<close>

text \<open>
  C1. For every raw status whose trimmed, lower-cased text contains a keyword of the
  rejected family (unfilled, filled, cancelled, canceled, closed, not selected, rejected,
  unsuccessful, declined, did not proceed), \<open>normalize_status\<close> returns
  \<open>"Rejected"\<close>, whatever keywords of later families the text also contains.
\<close>

theorem normalize_status_rejected:
  assumes kw: "kw \<in> {''unfilled'', ''filled'', ''cancelled'', ''canceled'', ''closed'',
                    ''not selected'', ''rejected'', ''unsuccessful'', ''declined'',
                    ''did not proceed''}"
    and occurs: "py_lower U (py_strip raw) = p @ ascii kw @ t"
  shows "normalize_status U (Some raw) = ascii ''Rejected''"
proof -
  from occurs have "str_in (ascii kw) (py_lower U (py_strip raw))"
    unfolding str_in_iff by blast
  with kw have "any_keyword [''unfilled'', ''filled'', ''cancelled'', ''canceled'', ''closed'',
                    ''not selected'', ''rejected'', ''unsuccessful'', ''declined'',
                    ''did not proceed''] (py_lower U (py_strip raw))"
    unfolding any_keyword_def list_ex_iff by auto
  then have "first_match STATUS_KEYWORDS (py_lower U (py_strip raw)) = Some T_rejected"
    by (rule first_match_rejected)
  then show ?thesis by (simp add: normalize_status_def)
qed

text \<open>
  The raw status \<open>" Phone Screen - REJECTED "\<close> contains \<open>screen\<close>, of the interview
  family, and \<open>rejected\<close>; it resolves to \<open>"Rejected"\<close>.
\<close>

theorem normalize_status_rejected_witness:
  "py_lower ucd_fi (py_strip (ascii '' Phone Screen - REJECTED ''))
     = ascii ''phone screen - '' @ ascii ''rejected'' @ []
   \<and> normalize_status ucd_fi (Some (ascii '' Phone Screen - REJECTED '')) = ascii ''Rejected''"
proof -
  have k: "''rejected'' \<in> {''unfilled'', ''filled'', ''cancelled'', ''canceled'', ''closed'',
                    ''not selected'', ''rejected'', ''unsuccessful'', ''declined'',
                    ''did not proceed''}"
    by simp
  have o: "py_lower ucd_fi (py_strip (ascii '' Phone Screen - REJECTED ''))
     = ascii ''phone screen - '' @ ascii ''rejected'' @ []"
    by (simp add: normalize_eval)
  from normalize_status_rejected [OF k o] o show ?thesis by blast
qed

subsection \<open>The fallback\<close>

text \<open>
  C4. When no keyword of any family occurs in the trimmed, lower-cased input,
  \<open>normalize_status\<close> returns the trimmed input in title case; when the trimmed input
  is empty, it returns \<open>"Applied"\<close>.
\<close>

theorem normalize_status_fallback:
  "((\<forall>(target, keywords) \<in> set STATUS_KEYWORDS. \<forall>keyword \<in> set keywords.
        \<not> (\<exists>p t. py_lower U (py_strip raw) = p @ ascii keyword @ t)) \<longrightarrow>
      normalize_status U (Some raw) =
        (if py_strip raw = [] then ascii ''Applied'' else py_title U (py_strip raw)))
   \<and> (py_strip raw = [] \<longrightarrow> normalize_status U (Some raw) = ascii ''Applied'')"
proof (rule conjI; rule impI)
  assume "\<forall>(target, keywords) \<in> set STATUS_KEYWORDS. \<forall>keyword \<in> set keywords.
        \<not> (\<exists>p t. py_lower U (py_strip raw) = p @ ascii keyword @ t)"
  then have "\<forall>(target, keywords) \<in> set STATUS_KEYWORDS.
      \<not> any_keyword keywords (py_lower U (py_strip raw))"
    unfolding any_keyword_def list_ex_iff str_in_iff by blast
  then have "first_match STATUS_KEYWORDS (py_lower U (py_strip raw)) = None"
    by (simp only: first_match_None)
  then show "normalize_status U (Some raw) =
        (if py_strip raw = [] then ascii ''Applied'' else py_title U (py_strip raw))"
    by (simp add: normalize_status_unmatched)
next
  assume "py_strip raw = []"
  then show "normalize_status U (Some raw) = ascii ''Applied''"
    by (simp add: normalize_status_def py_lower_def STATUS_KEYWORDS_def any_keyword_def ascii_def)
qed

theorem normalize_status_fallback_witness:
  "normalize_status ucd_fi (Some (ascii ''  some custom label '')) = ascii ''Some Custom Label''
   \<and> normalize_status ucd_fi (Some (ascii ''   '')) = ascii ''Applied''
   \<and> normalize_status ucd_fi (Some []) = ascii ''Applied''"
proof -
  have "first_match STATUS_KEYWORDS (py_lower ucd_fi (py_strip (ascii ''  some custom label ''))) = None"
    by (simp add: normalize_eval)
  then have "\<forall>(target, keywords) \<in> set STATUS_KEYWORDS.
      \<not> any_keyword keywords (py_lower ucd_fi (py_strip (ascii ''  some custom label '')))"
    by (simp only: first_match_None)
  then have h: "\<forall>(target, keywords) \<in> set STATUS_KEYWORDS. \<forall>keyword \<in> set keywords.
        \<not> (\<exists>p t. py_lower ucd_fi (py_strip (ascii ''  some custom label '')) = p @ ascii keyword @ t)"
    unfolding any_keyword_def list_ex_iff str_in_iff by blast
  have s: "py_strip (ascii ''  some custom label '') \<noteq> []"
    "py_title ucd_fi (py_strip (ascii ''  some custom label '')) = ascii ''Some Custom Label''"
    by (simp_all add: normalize_eval)
  have e: "py_strip (ascii ''   '') = []" "py_strip [] = []"
    by (simp_all add: normalize_eval)
  from normalize_status_fallback [of ucd_fi "ascii ''  some custom label ''"] h s
  have 1: "normalize_status ucd_fi (Some (ascii ''  some custom label '')) = ascii ''Some Custom Label''"
    by simp
  from normalize_status_fallback [of ucd_fi "ascii ''   ''"] e(1)
  have 2: "normalize_status ucd_fi (Some (ascii ''   '')) = ascii ''Applied''"
    by blast
  from normalize_status_fallback [of ucd_fi "[]"] e(2)
  have 3: "normalize_status ucd_fi (Some []) = ascii ''Applied''"
    by blast
  from 1 2 3 show ?thesis by blast
qed

subsection \<open>Canonical labels\<close>

text \<open>
  C5. Each canonical label (Applied, Interview, Onsite, Offer, Ranked, Rejected) is
  normalised to itself.
\<close>

theorem normalize_status_canonical_labels:
  "normalize_status U (Some (ascii ''Applied'')) = ascii ''Applied'' \<and>
   normalize_status U (Some (ascii ''Interview'')) = ascii ''Interview'' \<and>
   normalize_status U (Some (ascii ''Onsite'')) = ascii ''Onsite'' \<and>
   normalize_status U (Some (ascii ''Offer'')) = ascii ''Offer'' \<and>
   normalize_status U (Some (ascii ''Ranked'')) = ascii ''Ranked'' \<and>
   normalize_status U (Some (ascii ''Rejected'')) = ascii ''Rejected''"
  using normalize_status_canonical [of U T_applied] normalize_status_canonical [of U T_interview]
    normalize_status_canonical [of U T_onsite] normalize_status_canonical [of U T_offer]
    normalize_status_canonical [of U T_ranked] normalize_status_canonical [of U T_rejected]
  by simp

theorem normalize_status_canonical_labels_witness:
  "normalize_status ucd_fi (Some (ascii ''Rejected'')) = ascii ''Rejected''
   \<and> normalize_status ucd_fi (Some (ascii ''Offer'')) = ascii ''Offer''"
  using normalize_status_canonical_labels [of ucd_fi] by blast

subsection \<open>Idempotence\<close>

text \<open>
  C9, as the code has it. \<open>normalize_status\<close> applied twice gives what it gives
  applied once, for every input that is ASCII throughout and for every input in which a
  keyword matches. (It does not hold for every text: see below.)
\<close>

theorem normalize_status_idempotent_ascii:
  assumes "list_all is_ascii x \<or> first_match STATUS_KEYWORDS (py_lower U (py_strip x)) \<noteq> None"
  shows "normalize_status U (Some (normalize_status U (Some x))) = normalize_status U (Some x)"
proof (cases "first_match STATUS_KEYWORDS (py_lower U (py_strip x))")
  case (Some t)
  then have "normalize_status U (Some x) = ascii (canonical t)"
    by (rule normalize_status_matched)
  then show ?thesis by (simp add: normalize_status_canonical)
next
  case None
  with assms have a: "list_all is_ascii x" by simp
  define trimmed where "trimmed = py_strip x"
  have ta: "list_all is_ascii trimmed" unfolding trimmed_def using a by (rule py_strip_ascii)
  have ts: "py_strip trimmed = trimmed" unfolding trimmed_def by (rule py_strip_idem)
  show ?thesis
  proof (cases "trimmed = []")
    case True
    with None have "normalize_status U (Some x) = ascii ''Applied''"
      by (simp add: normalize_status_unmatched trimmed_def)
    then show ?thesis using normalize_status_canonical [of U T_applied] by simp
  next
    case False
    define r where "r = py_title U trimmed"
    from None False have nx: "normalize_status U (Some x) = r"
      by (simp add: normalize_status_unmatched trimmed_def r_def)
    have ra: "list_all is_ascii r"
      unfolding r_def py_title_def using ta by (rule do_title_ascii_is_ascii)
    have rs: "py_strip r = r" unfolding r_def using ta ts by (rule py_title_ascii_stripped)
    have "length r = length trimmed"
      unfolding r_def py_title_def using ta by (rule do_title_ascii_length)
    with False have rn: "r \<noteq> []" by auto
    have "py_lower U r = map ascii_tolower r" using ra by (rule py_lower_ascii)
    also have "\<dots> = map ascii_tolower trimmed"
      unfolding r_def py_title_def using ta by (rule do_title_ascii_lower)
    also have "\<dots> = py_lower U trimmed" using ta by (rule py_lower_ascii [symmetric])
    finally have "first_match STATUS_KEYWORDS (py_lower U (py_strip r)) = None"
      using None by (simp add: rs trimmed_def)
    then have "normalize_status U (Some r) = py_title U r"
      using rn by (simp add: normalize_status_unmatched rs)
    also have "\<dots> = r"
      unfolding r_def py_title_def using ta by (rule do_title_ascii_idem)
    finally show ?thesis by (simp add: nx)
  qed
qed

theorem normalize_status_idempotent_ascii_witness:
  "list_all is_ascii (ascii '' some custom LABEL '') \<and>
   normalize_status ucd_fi (Some (ascii '' some custom LABEL '')) = ascii ''Some Custom Label'' \<and>
   normalize_status ucd_fi (Some (ascii ''Some Custom Label'')) = ascii ''Some Custom Label''"
proof -
  have a: "list_all is_ascii (ascii '' some custom LABEL '')"
    by (simp add: ascii_def is_ascii_def)
  have v: "normalize_status ucd_fi (Some (ascii '' some custom LABEL '')) = ascii ''Some Custom Label''"
    by (simp add: normalize_eval ucd_fi_def)
  from a have "list_all is_ascii (ascii '' some custom LABEL '') \<or>
      first_match STATUS_KEYWORDS (py_lower ucd_fi (py_strip (ascii '' some custom LABEL ''))) \<noteq> None"
    by (rule disjI1)
  from normalize_status_idempotent_ascii [OF this] a v show ?thesis by simp
qed

text \<open>
  C9 as stated, for every text, fails. The text of U+FB01 followed by \<open>lled\<close> contains
  no keyword, since the ligature is its own lower case; its title case is \<open>"Filled"\<close>,
  where the ligature has become two letters, and \<open>"Filled"\<close> contains the keyword
  \<open>filled\<close>: the second pass returns \<open>"Rejected"\<close>.
\<close>

theorem normalize_status_not_idempotent:
  "normalize_status ucd_fi (Some (normalize_status ucd_fi (Some (64257 # ascii ''lled''))))
   \<noteq> normalize_status ucd_fi (Some (64257 # ascii ''lled''))"
  by (simp add: normalize_eval ucd_fi_def)

lemma normalize_status_not_idempotent_values:
  "normalize_status ucd_fi (Some (64257 # ascii ''lled'')) = ascii ''Filled'' \<and>
   normalize_status ucd_fi (Some (ascii ''Filled'')) = ascii ''Rejected''"
  by (simp add: normalize_eval ucd_fi_def)

text \<open>
  The same holds with every table that has the three entries of the Unicode character
  database for U+FB01.
\<close>

lemma normalize_status_ligature:
  assumes "ucd_title U 64257 = [70, 105]" and "ucd_lower U 64257 = [64257]"
    and "ucd_cased U 64257"
  shows "normalize_status U (Some (64257 # ascii ''lled'')) = ascii ''Filled''"
    and "normalize_status U (Some (ascii ''Filled'')) = ascii ''Rejected''"
  using assms by (simp_all add: normalize_eval)

section \<open>Properties of the store and of reconciliation\<close>

lemma select_id_find:
  "select_id (company data) (role data) conn = map_option app_id (find (same_key data) (rows conn))"
  by (simp add: select_id_def same_key_def [abs_def])

lemma upsert_application_None:
  assumes "find (same_key data) (rows conn) = None"
  shows "upsert_application U data conn =
           \<lparr>rows = rows conn @ [candidate_row U data (next_id conn)], seq = next_id conn\<rparr>"
proof -
  from assms have "select_id (company data) (role data) conn = None"
    by (simp add: select_id_find)
  then show ?thesis
    by (simp add: upsert_application_def Let_def sql_insert_def data_to_tuple_def
        candidate_row_def)
qed

lemma upsert_application_Some:
  assumes "find (same_key data) (rows conn) = Some r"
  shows "upsert_application U data conn =
           conn\<lparr>rows := map (\<lambda>x. if app_id x = app_id r then candidate_row U data (app_id r) else x)
                           (rows conn)\<rparr>"
proof -
  from assms have "select_id (company data) (role data) conn = Some (app_id r)"
    by (simp add: select_id_find)
  then show ?thesis
    by (simp add: upsert_application_def Let_def sql_update_def data_to_tuple_def
        candidate_row_def)
qed

lemma fold_max_ge: "(m::int) \<le> fold max xs m"
  by (induction xs arbitrary: m) (auto intro: order_trans [OF max.cobounded2])

lemma fold_max_mem: "x \<in> set xs \<Longrightarrow> (x::int) \<le> fold max xs m"
proof (induction xs arbitrary: m)
  case Nil
  then show ?case by simp
next
  case (Cons y ys)
  show ?case
  proof (cases "x = y")
    case True
    have "max y m \<le> fold max ys (max y m)" by (rule fold_max_ge)
    with True show ?thesis by simp
  next
    case False
    with Cons.prems have "x \<in> set ys" by simp
    then show ?thesis using Cons.IH by simp
  qed
qed

lemma next_id_fresh: "r \<in> set (rows s) \<Longrightarrow> app_id r < next_id s"
proof -
  assume "r \<in> set (rows s)"
  then have "app_id r \<in> set (map app_id (rows s))" by simp
  then have "app_id r \<le> fold max (map app_id (rows s)) (seq s)" by (rule fold_max_mem)
  then show ?thesis by (simp add: next_id_def)
qed

lemma next_id_not_in: "next_id s \<notin> set (map app_id (rows s))"
  using next_id_fresh [of _ s] by fastforce

lemma map_update_distinct:
  assumes "distinct (map f xs)" and "k < length xs"
  shows "map (\<lambda>x. if f x = f (xs ! k) then y else x) xs = xs[k := y]"
proof (rule nth_equalityI)
  show "length (map (\<lambda>x. if f x = f (xs ! k) then y else x) xs) = length (xs[k := y])" by simp
next
  fix j assume "j < length (map (\<lambda>x. if f x = f (xs ! k) then y else x) xs)"
  then have j: "j < length xs" by simp
  have "f (xs ! j) = f (xs ! k) \<longleftrightarrow> j = k"
    using assms j by (metis distinct_conv_nth length_map nth_map)
  with j assms(2) show "map (\<lambda>x. if f x = f (xs ! k) then y else x) xs ! j = xs[k := y] ! j"
    by (simp add: nth_list_update)
qed

lemma find_Some_index:
  "find P xs = Some r \<Longrightarrow> \<exists>k<length xs. xs ! k = r \<and> P r \<and> (\<forall>j<k. \<not> P (xs ! j))"
  by (auto simp: find_Some_iff)

lemma app_id_candidate_row: "app_id (candidate_row U data i) = i"
  by (simp add: candidate_row_def)

lemma same_key_candidate_row: "same_key data (candidate_row U data i)"
  by (simp add: candidate_row_def same_key_def)

lemma map_app_id_update:
  "map app_id (map (\<lambda>x. if app_id x = i then candidate_row U data i else x) xs) = map app_id xs"
  by (induction xs) (simp_all add: app_id_candidate_row)

subsection \<open>Insert or update\<close>

text \<open>
  C2. For every store and every candidate: when no record has the candidate's company
  and role, \<open>upsert_application\<close> appends exactly one record, under a key that no
  record has, and the count grows by one; when such a record exists, the count and the
  keys of all records stay as they are, no key is handed out, and a record with the
  candidate's company and role holds the candidate's values under the key it had.
\<close>

theorem upsert_application_insert_or_update:
  "((\<forall>r \<in> set (rows conn). \<not> same_key data r) \<longrightarrow>
      length (rows (upsert_application U data conn)) = length (rows conn) + 1 \<and>
      rows (upsert_application U data conn) = rows conn @ [candidate_row U data (next_id conn)] \<and>
      next_id conn \<notin> set (map app_id (rows conn)))
   \<and> ((\<exists>r \<in> set (rows conn). same_key data r) \<longrightarrow>
      length (rows (upsert_application U data conn)) = length (rows conn) \<and>
      map app_id (rows (upsert_application U data conn)) = map app_id (rows conn) \<and>
      seq (upsert_application U data conn) = seq conn \<and>
      (\<exists>k < length (rows conn). same_key data (rows conn ! k) \<and>
         rows (upsert_application U data conn) ! k =
           candidate_row U data (app_id (rows conn ! k))))"
proof (intro conjI impI)
  assume "\<forall>r \<in> set (rows conn). \<not> same_key data r"
  then have "find (same_key data) (rows conn) = None" by (simp add: find_None_iff)
  then have u: "upsert_application U data conn =
      \<lparr>rows = rows conn @ [candidate_row U data (next_id conn)], seq = next_id conn\<rparr>"
    by (rule upsert_application_None)
  show "length (rows (upsert_application U data conn)) = length (rows conn) + 1"
    by (simp add: u)
  show "rows (upsert_application U data conn) = rows conn @ [candidate_row U data (next_id conn)]"
    by (simp add: u)
  show "next_id conn \<notin> set (map app_id (rows conn))" by (rule next_id_not_in)
next
  assume "\<exists>r \<in> set (rows conn). same_key data r"
  then obtain r where f: "find (same_key data) (rows conn) = Some r"
    by (cases "find (same_key data) (rows conn)") (auto simp: find_None_iff)
  then have u: "upsert_application U data conn =
      conn\<lparr>rows := map (\<lambda>x. if app_id x = app_id r then candidate_row U data (app_id r) else x)
                      (rows conn)\<rparr>"
    by (rule upsert_application_Some)
  show "length (rows (upsert_application U data conn)) = length (rows conn)"
    by (simp add: u)
  have rw: "rows (upsert_application U data conn) =
      map (\<lambda>x. if app_id x = app_id r then candidate_row U data (app_id r) else x) (rows conn)"
    by (simp add: u)
  show "map app_id (rows (upsert_application U data conn)) = map app_id (rows conn)"
    unfolding rw by (rule map_app_id_update)
  show "seq (upsert_application U data conn) = seq conn"
    by (simp add: u)
  from find_Some_index [OF f]
  obtain k where k: "k < length (rows conn)" "rows conn ! k = r" "same_key data r"
    by blast
  then have "rows (upsert_application U data conn) ! k = candidate_row U data (app_id (rows conn ! k))"
    by (simp add: rw)
  with k show "\<exists>k < length (rows conn). same_key data (rows conn ! k) \<and>
         rows (upsert_application U data conn) ! k =
           candidate_row U data (app_id (rows conn ! k))"
    by blast
qed

theorem upsert_application_insert_or_update_witness:
  "length (rows (upsert_application ucd_fi (example_data ''Quark Labs'' ''Data Intern'' ''offer accepted'')
      example_store)) = 4
   \<and> length (rows (upsert_application ucd_fi (example_data ''Acme'' ''Intern'' ''position filled'')
      example_store)) = 3
   \<and> map app_id (rows (upsert_application ucd_fi (example_data ''Acme'' ''Intern'' ''position filled'')
      example_store)) = [1, 2, 3]"
proof -
  have n: "\<forall>r \<in> set (rows example_store).
      \<not> same_key (example_data ''Quark Labs'' ''Data Intern'' ''offer accepted'') r"
    by (simp add: example_defs)
  have e: "\<exists>r \<in> set (rows example_store).
      same_key (example_data ''Acme'' ''Intern'' ''position filled'') r"
    by (simp add: example_defs)
  have l: "length (rows example_store) = 3" "map app_id (rows example_store) = [1, 2, 3]"
    by (simp_all add: example_defs)
  from upsert_application_insert_or_update
    [of example_store "example_data ''Quark Labs'' ''Data Intern'' ''offer accepted''" ucd_fi] n
  have a: "length (rows (upsert_application ucd_fi
      (example_data ''Quark Labs'' ''Data Intern'' ''offer accepted'') example_store))
      = length (rows example_store) + 1"
    by blast
  from upsert_application_insert_or_update
    [of example_store "example_data ''Acme'' ''Intern'' ''position filled''" ucd_fi] e
  have b: "length (rows (upsert_application ucd_fi
      (example_data ''Acme'' ''Intern'' ''position filled'') example_store))
      = length (rows example_store)"
    "map app_id (rows (upsert_application ucd_fi
      (example_data ''Acme'' ''Intern'' ''position filled'') example_store))
      = map app_id (rows example_store)"
    by blast+
  from a b l show ?thesis by simp
qed

subsection \<open>Full overwrite\<close>

text \<open>
  C3. When \<open>upsert_application\<close> finds a record with the candidate's company and
  role, that record keeps its key and every other field of it takes the candidate's
  value, the status after normalisation; empty notes of the candidate replace the notes
  that were stored.
\<close>

theorem upsert_application_overwrites:
  assumes "find (same_key data) (rows conn) = Some r"
  shows "\<exists>k < length (rows conn). rows conn ! k = r \<and>
           app_id (rows (upsert_application U data conn) ! k) = app_id r \<and>
           company (rows (upsert_application U data conn) ! k) = company data \<and>
           role (rows (upsert_application U data conn) ! k) = role data \<and>
           location (rows (upsert_application U data conn) ! k) = location data \<and>
           status (rows (upsert_application U data conn) ! k) = normalize_status U (status data) \<and>
           applied_date (rows (upsert_application U data conn) ! k) = applied_date data \<and>
           follow_up_date (rows (upsert_application U data conn) ! k) = follow_up_date data \<and>
           source (rows (upsert_application U data conn) ! k) = source data \<and>
           notes' (rows (upsert_application U data conn) ! k) = notes' data \<and>
           url (rows (upsert_application U data conn) ! k) = url data"
proof -
  from assms have u: "upsert_application U data conn =
      conn\<lparr>rows := map (\<lambda>x. if app_id x = app_id r then candidate_row U data (app_id r) else x)
                      (rows conn)\<rparr>"
    by (rule upsert_application_Some)
  from find_Some_index [OF assms]
  obtain k where k: "k < length (rows conn)" "rows conn ! k = r"
    by blast
  have rw: "rows (upsert_application U data conn) =
      map (\<lambda>x. if app_id x = app_id r then candidate_row U data (app_id r) else x) (rows conn)"
    by (simp add: u)
  have "rows (upsert_application U data conn) ! k = candidate_row U data (app_id r)"
    unfolding rw using k by simp
  then have f: "app_id (rows (upsert_application U data conn) ! k) = app_id r \<and>
           company (rows (upsert_application U data conn) ! k) = company data \<and>
           role (rows (upsert_application U data conn) ! k) = role data \<and>
           location (rows (upsert_application U data conn) ! k) = location data \<and>
           status (rows (upsert_application U data conn) ! k) = normalize_status U (status data) \<and>
           applied_date (rows (upsert_application U data conn) ! k) = applied_date data \<and>
           follow_up_date (rows (upsert_application U data conn) ! k) = follow_up_date data \<and>
           source (rows (upsert_application U data conn) ! k) = source data \<and>
           notes' (rows (upsert_application U data conn) ! k) = notes' data \<and>
           url (rows (upsert_application U data conn) ! k) = url data"
    by (simp add: candidate_row_def)
  show ?thesis
    by (rule exI [of _ k]) (use k f in simp)
qed

theorem upsert_application_overwrites_witness:
  "find (same_key (example_data ''Acme'' ''Intern'' ''position filled'')) (rows example_store)
     = Some (example_row 1 ''Acme'' ''Intern'' ''Applied'' ''Prep system design'')
   \<and> notes' (example_row 1 ''Acme'' ''Intern'' ''Applied'' ''Prep system design'')
     = Some (ascii ''Prep system design'')
   \<and> (\<exists>k < length (rows example_store).
         rows example_store ! k = example_row 1 ''Acme'' ''Intern'' ''Applied'' ''Prep system design''
         \<and> notes' (rows (upsert_application ucd_fi
               (example_data ''Acme'' ''Intern'' ''position filled'') example_store) ! k) = Some []
         \<and> status (rows (upsert_application ucd_fi
               (example_data ''Acme'' ''Intern'' ''position filled'') example_store) ! k)
             = ascii ''Rejected'')"
proof -
  have f: "find (same_key (example_data ''Acme'' ''Intern'' ''position filled'')) (rows example_store)
     = Some (example_row 1 ''Acme'' ''Intern'' ''Applied'' ''Prep system design'')"
    by (simp add: example_defs)
  have n: "notes' (example_row 1 ''Acme'' ''Intern'' ''Applied'' ''Prep system design'')
     = Some (ascii ''Prep system design'')"
    by (simp add: example_row_def)
  have d: "notes' (example_data ''Acme'' ''Intern'' ''position filled'') = Some []"
    "normalize_status ucd_fi (status (example_data ''Acme'' ''Intern'' ''position filled''))
       = ascii ''Rejected''"
    by (simp_all add: example_data_def normalize_eval)
  from upsert_application_overwrites [OF f, of ucd_fi]
  obtain k where "k < length (rows example_store)"
    "rows example_store ! k = example_row 1 ''Acme'' ''Intern'' ''Applied'' ''Prep system design''"
    "notes' (rows (upsert_application ucd_fi
        (example_data ''Acme'' ''Intern'' ''position filled'') example_store) ! k)
       = notes' (example_data ''Acme'' ''Intern'' ''position filled'')"
    "status (rows (upsert_application ucd_fi
        (example_data ''Acme'' ''Intern'' ''position filled'') example_store) ! k)
       = normalize_status ucd_fi (status (example_data ''Acme'' ''Intern'' ''position filled''))"
    by blast
  with d have "\<exists>k < length (rows example_store).
         rows example_store ! k = example_row 1 ''Acme'' ''Intern'' ''Applied'' ''Prep system design''
         \<and> notes' (rows (upsert_application ucd_fi
               (example_data ''Acme'' ''Intern'' ''position filled'') example_store) ! k) = Some []
         \<and> status (rows (upsert_application ucd_fi
               (example_data ''Acme'' ''Intern'' ''position filled'') example_store) ! k)
             = ascii ''Rejected''"
    by metis
  with f n show ?thesis by blast
qed

subsection \<open>The other records\<close>

text \<open>
  The keys of a table are distinct, as \<open>PRIMARY KEY\<close> has it, and reconciliation keeps
  them so.
\<close>

lemma upsert_application_distinct:
  assumes "distinct (map app_id (rows conn))"
  shows "distinct (map app_id (rows (upsert_application U data conn)))"
proof (cases "find (same_key data) (rows conn)")
  case None
  then have "upsert_application U data conn =
      \<lparr>rows = rows conn @ [candidate_row U data (next_id conn)], seq = next_id conn\<rparr>"
    by (rule upsert_application_None)
  with assms next_id_not_in [of conn] show ?thesis
    by (simp add: app_id_candidate_row)
next
  case (Some r)
  then have "upsert_application U data conn =
      conn\<lparr>rows := map (\<lambda>x. if app_id x = app_id r then candidate_row U data (app_id r) else x)
                      (rows conn)\<rparr>"
    by (rule upsert_application_Some)
  then have "rows (upsert_application U data conn) =
      map (\<lambda>x. if app_id x = app_id r then candidate_row U data (app_id r) else x) (rows conn)"
    by simp
  then have "map app_id (rows (upsert_application U data conn)) = map app_id (rows conn)"
    by (simp only: map_app_id_update)
  with assms show ?thesis by simp
qed

text \<open>
  C10. \<open>upsert_application\<close> changes at most one record of a table: without a match
  every record that was there stays as it is; with a match the first record found takes
  the candidate's values and every other record, also one with the same company and
  role, stays as it is.
\<close>

theorem upsert_application_frame:
  assumes d: "distinct (map app_id (rows conn))"
  shows "((\<forall>r \<in> set (rows conn). \<not> same_key data r) \<longrightarrow>
            take (length (rows conn)) (rows (upsert_application U data conn)) = rows conn)
       \<and> (\<forall>k < length (rows conn).
            same_key data (rows conn ! k) \<and> (\<forall>j < k. \<not> same_key data (rows conn ! j)) \<longrightarrow>
            length (rows (upsert_application U data conn)) = length (rows conn) \<and>
            rows (upsert_application U data conn) ! k
              = candidate_row U data (app_id (rows conn ! k)) \<and>
            (\<forall>j < length (rows conn). j \<noteq> k \<longrightarrow>
               rows (upsert_application U data conn) ! j = rows conn ! j))"
proof (rule conjI)
  show "(\<forall>r \<in> set (rows conn). \<not> same_key data r) \<longrightarrow>
            take (length (rows conn)) (rows (upsert_application U data conn)) = rows conn"
  proof (rule impI)
    assume "\<forall>r \<in> set (rows conn). \<not> same_key data r"
    then have "find (same_key data) (rows conn) = None" by (simp add: find_None_iff)
    then have "upsert_application U data conn =
        \<lparr>rows = rows conn @ [candidate_row U data (next_id conn)], seq = next_id conn\<rparr>"
      by (rule upsert_application_None)
    then show "take (length (rows conn)) (rows (upsert_application U data conn)) = rows conn"
      by simp
  qed
next
  show "\<forall>k < length (rows conn).
            same_key data (rows conn ! k) \<and> (\<forall>j < k. \<not> same_key data (rows conn ! j)) \<longrightarrow>
            length (rows (upsert_application U data conn)) = length (rows conn) \<and>
            rows (upsert_application U data conn) ! k
              = candidate_row U data (app_id (rows conn ! k)) \<and>
            (\<forall>j < length (rows conn). j \<noteq> k \<longrightarrow>
               rows (upsert_application U data conn) ! j = rows conn ! j)"
  proof (intro allI impI)
    fix k
    assume k: "k < length (rows conn)"
      and first: "same_key data (rows conn ! k) \<and> (\<forall>j < k. \<not> same_key data (rows conn ! j))"
    then have "find (same_key data) (rows conn) = Some (rows conn ! k)"
      unfolding find_Some_iff by blast
    then have "upsert_application U data conn =
        conn\<lparr>rows := map (\<lambda>x. if app_id x = app_id (rows conn ! k)
                               then candidate_row U data (app_id (rows conn ! k)) else x)
                        (rows conn)\<rparr>"
      by (rule upsert_application_Some)
    then have "rows (upsert_application U data conn) =
        map (\<lambda>x. if app_id x = app_id (rows conn ! k)
                  then candidate_row U data (app_id (rows conn ! k)) else x) (rows conn)"
      by simp
    also have "\<dots> = (rows conn)[k := candidate_row U data (app_id (rows conn ! k))]"
      using d k by (rule map_update_distinct)
    finally have u: "rows (upsert_application U data conn)
        = (rows conn)[k := candidate_row U data (app_id (rows conn ! k))]" .
    show "length (rows (upsert_application U data conn)) = length (rows conn) \<and>
            rows (upsert_application U data conn) ! k
              = candidate_row U data (app_id (rows conn ! k)) \<and>
            (\<forall>j < length (rows conn). j \<noteq> k \<longrightarrow>
               rows (upsert_application U data conn) ! j = rows conn ! j)"
      using k by (simp add: u)
  qed
qed

text \<open>
  The example store has two records of company Acme and role Intern; only the first is
  updated.
\<close>

theorem upsert_application_frame_witness:
  "same_key (example_data ''Acme'' ''Intern'' ''position filled'') (rows example_store ! 1)
   \<and> rows (upsert_application ucd_fi (example_data ''Acme'' ''Intern'' ''position filled'')
        example_store) ! 1 = rows example_store ! 1
   \<and> rows (upsert_application ucd_fi (example_data ''Acme'' ''Intern'' ''position filled'')
        example_store) ! 2 = rows example_store ! 2
   \<and> status (rows (upsert_application ucd_fi (example_data ''Acme'' ''Intern'' ''position filled'')
        example_store) ! 0) = ascii ''Rejected''"
proof -
  let ?d = "example_data ''Acme'' ''Intern'' ''position filled''"
  have d: "distinct (map app_id (rows example_store))" by (simp add: example_defs)
  have l: "length (rows example_store) = 3" by (simp add: example_store_def)
  have z: "(0::nat) < length (rows example_store)" by (simp add: l)
  have f: "same_key ?d (rows example_store ! 0) \<and> (\<forall>j < 0. \<not> same_key ?d (rows example_store ! j))"
    by (simp add: example_defs)
  have s: "same_key ?d (rows example_store ! 1)" by (simp add: example_defs)
  have n: "status (candidate_row ucd_fi ?d (app_id (rows example_store ! 0))) = ascii ''Rejected''"
    by (simp add: candidate_row_def example_data_def normalize_eval)
  from upsert_application_frame [OF d, of ?d ucd_fi] z f
  have u: "rows (upsert_application ucd_fi ?d example_store) ! 0
        = candidate_row ucd_fi ?d (app_id (rows example_store ! 0))"
    "\<forall>j < length (rows example_store). j \<noteq> 0 \<longrightarrow>
        rows (upsert_application ucd_fi ?d example_store) ! j = rows example_store ! j"
    by blast+
  from u(2) l have "rows (upsert_application ucd_fi ?d example_store) ! 1 = rows example_store ! 1"
    "rows (upsert_application ucd_fi ?d example_store) ! 2 = rows example_store ! 2"
    by simp_all
  with u(1) n s show ?thesis by simp
qed

subsection \<open>Manual entry does not look up\<close>

text \<open>
  C7. A manual add whose company and role are those of a record in the store appends a
  second record with that company and role, under another key; the record that was there
  is not updated.
\<close>

theorem add_application_duplicates:
  assumes "r \<in> set (rows conn)"
    and "company r = py_strip (form_get f ''company'' [])"
    and "role r = py_strip (form_get f ''role'' [])"
  shows "\<exists>new. rows (add_application U today POST f conn) = rows conn @ [new]
           \<and> company new = company r \<and> role new = role r \<and> app_id new \<noteq> app_id r
           \<and> new \<noteq> r"
proof -
  let ?new = "bind_row (next_id conn) (data_to_tuple (form_to_application U today f))"
  have rw: "rows (add_application U today POST f conn) = rows conn @ [?new]"
    by (simp add: add_application_def sql_insert_def)
  have i: "app_id ?new = next_id conn"
    by (simp add: data_to_tuple_def)
  have c: "company ?new = company r" "role ?new = role r"
    using assms(2,3) by (simp_all add: data_to_tuple_def form_to_application_def Let_def)
  from assms(1) have "app_id r < next_id conn" by (rule next_id_fresh)
  with i have n: "app_id ?new \<noteq> app_id r" by simp
  then have "?new \<noteq> r" by auto
  with rw c n show ?thesis by blast
qed

theorem add_application_duplicates_witness:
  "length (filter (\<lambda>x. company x = ascii ''Acme'' \<and> role x = ascii ''Intern'')
      (rows example_store)) = 2
   \<and> length (filter (\<lambda>x. company x = ascii ''Acme'' \<and> role x = ascii ''Intern'')
      (rows (add_application ucd_fi (ascii ''2024-06-01'') POST example_form example_store))) = 3"
proof -
  let ?r = "example_row 1 ''Acme'' ''Intern'' ''Applied'' ''Prep system design''"
  have m: "?r \<in> set (rows example_store)" by (simp add: example_store_def)
  have c: "company ?r = py_strip (form_get example_form ''company'' [])"
    by (simp add: example_row_def example_form_def form_get_def py_strip_def is_whitespace_def
        ascii_def)
  have ro: "role ?r = py_strip (form_get example_form ''role'' [])"
    by (simp add: example_row_def example_form_def form_get_def py_strip_def is_whitespace_def
        ascii_def)
  have k: "company ?r = ascii ''Acme''" "role ?r = ascii ''Intern''"
    by (simp_all add: example_row_def)
  have b: "length (filter (\<lambda>x. company x = ascii ''Acme'' \<and> role x = ascii ''Intern'')
      (rows example_store)) = 2"
    by (simp add: example_defs)
  from add_application_duplicates [OF m c ro, of ucd_fi "ascii ''2024-06-01''"]
  obtain new where
    "rows (add_application ucd_fi (ascii ''2024-06-01'') POST example_form example_store)
       = rows example_store @ [new]"
    "company new = company ?r" "role new = role ?r"
    by blast
  with k b show ?thesis by simp
qed

subsection \<open>Counts by status\<close>

lemma sum_list_count_remdups:
  "sum_list (map (\<lambda>v. length (filter (\<lambda>r. f r = v) xs)) (remdups (map f xs))) = length xs"
proof -
  have "sum_list (map (\<lambda>v. length (filter (\<lambda>r. f r = v) xs)) (remdups (map f xs)))
      = sum (\<lambda>v. length (filter (\<lambda>r. f r = v) xs)) (set (remdups (map f xs)))"
    by (rule sum_list_distinct_conv_sum_set) simp
  also have "\<dots> = sum (\<lambda>v. card {i. i < length xs \<and> f (xs ! i) = v}) (f ` set xs)"
    by (simp add: length_filter_conv_card)
  also have "\<dots> = card (\<Union>v \<in> f ` set xs. {i. i < length xs \<and> f (xs ! i) = v})"
    by (rule card_UN_disjoint [symmetric]) auto
  also have "(\<Union>v \<in> f ` set xs. {i. i < length xs \<and> f (xs ! i) = v}) = {i. i < length xs}"
    by (auto intro: nth_mem)
  finally show ?thesis by simp
qed

text \<open>
  C8. The status breakdown of a store of N records has one pair for each status that
  occurs, each with the exact number of records of that status; the counts sum to N and
  descend.
\<close>

theorem fetch_stage_breakdown_counts:
  "distinct (map fst (fetch_stage_breakdown conn))
   \<and> set (map fst (fetch_stage_breakdown conn)) = status ` set (rows conn)
   \<and> (\<forall>(st, n) \<in> set (fetch_stage_breakdown conn).
         n = length (filter (\<lambda>r. status r = st) (rows conn)))
   \<and> sum_list (map snd (fetch_stage_breakdown conn)) = length (rows conn)
   \<and> sorted_wrt (\<lambda>m n. m \<ge> n) (map snd (fetch_stage_breakdown conn))"
proof -
  define groups where "groups =
    map (\<lambda>st. (st, length (filter (\<lambda>r. status r = st) (rows conn))))
        (remdups (map status (rows conn)))"
  define key where "key = (\<lambda>(st :: str, n :: nat). - int n)"
  have res: "fetch_stage_breakdown conn = sort_key key groups"
    by (simp add: fetch_stage_breakdown_def groups_def key_def)
  have m: "mset (fetch_stage_breakdown conn) = mset groups" by (simp add: res)
  then have s: "set (fetch_stage_breakdown conn) = set groups" by (rule mset_eq_setD)
  have fg: "map fst groups = remdups (map status (rows conn))"
    by (simp add: groups_def comp_def)
  have mf: "mset (map fst (fetch_stage_breakdown conn)) = mset (map fst groups)"
    using m by (metis mset_map)
  have p: "distinct (map fst (fetch_stage_breakdown conn)) = distinct (map fst groups)"
    "set (map fst (fetch_stage_breakdown conn)) = set (map fst groups)"
    using mf by (rule mset_eq_imp_distinct_iff, rule mset_eq_setD)
  have 1: "distinct (map fst (fetch_stage_breakdown conn))" using p(1) fg by simp
  have 2: "set (map fst (fetch_stage_breakdown conn)) = status ` set (rows conn)"
    using p(2) fg by simp
  have 3: "\<forall>(st, n) \<in> set (fetch_stage_breakdown conn).
         n = length (filter (\<lambda>r. status r = st) (rows conn))"
    unfolding s by (auto simp: groups_def)
  have "sum_list (map snd (fetch_stage_breakdown conn)) = sum_mset (mset (map snd (fetch_stage_breakdown conn)))"
    by (rule sum_mset_sum_list [symmetric])
  also have "mset (map snd (fetch_stage_breakdown conn)) = mset (map snd groups)"
    using m by (metis mset_map)
  also have "sum_mset (mset (map snd groups)) = sum_list (map snd groups)"
    by (rule sum_mset_sum_list)
  also have "map snd groups = map (\<lambda>v. length (filter (\<lambda>r. status r = v) (rows conn)))
      (remdups (map status (rows conn)))"
    by (simp add: groups_def comp_def)
  also have "sum_list \<dots> = length (rows conn)" by (rule sum_list_count_remdups)
  finally have 4: "sum_list (map snd (fetch_stage_breakdown conn)) = length (rows conn)" .
  have "sorted (map key (sort_key key groups))" by (rule sorted_sort_key)
  then have "sorted_wrt (\<lambda>x y. key x \<le> key y) (fetch_stage_breakdown conn)"
    by (simp add: res sorted_map)
  then have "sorted_wrt (\<lambda>x y. snd x \<ge> snd y) (fetch_stage_breakdown conn)"
    by (rule sorted_wrt_mono_rel [rotated]) (auto simp: key_def)
  then have 5: "sorted_wrt (\<lambda>m n. m \<ge> n) (map snd (fetch_stage_breakdown conn))"
    by (simp add: sorted_wrt_map)
  from 1 2 3 4 5 show ?thesis by blast
qed

theorem fetch_stage_breakdown_counts_witness:
  "fetch_stage_breakdown example_store = [(ascii ''Applied'', 2), (ascii ''Interview'', 1)]
   \<and> sum_list (map snd (fetch_stage_breakdown example_store)) = 3"
proof -
  have v: "fetch_stage_breakdown example_store = [(ascii ''Applied'', 2), (ascii ''Interview'', 1)]"
    by (simp add: fetch_stage_breakdown_def example_defs)
  have "length (rows example_store) = 3" by (simp add: example_store_def)
  with fetch_stage_breakdown_counts [of example_store] v show ?thesis by simp
qed

subsection \<open>The crawler's count\<close>

lemma crawl_rows_eq:
  "crawl_rows U a page (conn, imported) =
     (foldl (\<lambda>s row. upsert_application U (row_data U a row) s) conn (filter (present a) page),
      imported + length (filter (present a) page))"
  by (induction page arbitrary: conn imported) simp_all

text \<open>
  C6. A crawl reconciles exactly the rows in which company, role and raw status are all
  non-empty, in their order, and returns their number: a row that lacks one of the three
  neither reaches \<open>upsert_application\<close> nor is counted.
\<close>

theorem crawl_and_sync_count:
  "crawl_and_sync U a page conn =
     (foldl (\<lambda>s row. upsert_application U (row_data U a row) s) conn (filter (present a) page),
      length (filter (present a) page))"
  by (simp add: crawl_and_sync_def crawl_rows_eq)

text \<open>
  Of the four rows of the example page, one has no role and one has a blank status.
\<close>

theorem crawl_and_sync_count_witness:
  "snd (crawl_and_sync ucd_fi example_args example_page example_store) = 2"
proof -
  have "length (filter (present example_args) example_page) = 2"
    by (simp add: present_def extract_text_def example_args_def example_page_def py_strip_def
        is_whitespace_def ascii_def)
  with crawl_and_sync_count [of ucd_fi example_args example_page example_store]
  show ?thesis by simp
qed

end
